theory Spec2Isabelle
  imports Complex_Main
begin

section \<open>DeskBot: a shallow embedding of the coordination core\<close>

text \<open>
  The development follows the modules of the repository:
  \<^verbatim>\<open>src/motor_control.py\<close> (the dead-zone actuator controller),
  \<^verbatim>\<open>src/vision_tracker.py\<close> (one iteration of the vision loop),
  \<^verbatim>\<open>src/shared_state.py\<close> (the frame cell and the command queue),
  \<^verbatim>\<open>src/voice_commands.py\<close> (the command-text parser) and
  \<^verbatim>\<open>src/music_player.py\<close> (song matching and the volume operations).
  Python integers are \<open>int\<close>, Python strings are \<open>string\<close>, module-level and
  instance state is passed explicitly.
\<close>

subsection \<open>motor\_control.py\<close>

text \<open>
  \<^verbatim>\<open>DEAD_ZONE = 50\<close> and \<^verbatim>\<open>MOTOR_SPEED = 1.0\<close>. A motor object of the MotorKit
  library is modelled by the one attribute the module writes, its throttle.
\<close>

definition DEAD_ZONE :: int where
  "DEAD_ZONE = 50"

definition MOTOR_SPEED :: real where
  "MOTOR_SPEED = 1"

record dcmotor =
  throttle :: real

text \<open>
  The module-level state: the availability flag, the two motor handles (\<open>None\<close> is
  Python's \<^verbatim>\<open>None\<close>) and the lines printed so far.
\<close>

record motor_module =
  MOTOR_AVAILABLE :: bool
  motor1 :: "dcmotor option"
  motor2 :: "dcmotor option"
  printed :: "string list"

text \<open>
  Module initialisation. The argument is what \<^verbatim>\<open>MotorKit()\<close> delivers: the two
  motors \<^verbatim>\<open>kit.motor1\<close>, \<^verbatim>\<open>kit.motor2\<close>, or \<open>None\<close> when the \<^verbatim>\<open>try\<close> block raises
  (the text of the exception is not modelled).
\<close>

definition init_motors :: "(dcmotor \<times> dcmotor) option \<Rightarrow> motor_module" where
  "init_motors kit =
     (case kit of
        Some (m1, m2) \<Rightarrow>
          \<lparr>MOTOR_AVAILABLE = True, motor1 = Some m1, motor2 = Some m2,
           printed = [''Motors initialized on M1 and M2'']\<rparr>
      | None \<Rightarrow>
          \<lparr>MOTOR_AVAILABLE = False, motor1 = None, motor2 = None,
           printed = [''Motors not available'']\<rparr>)"

definition set_throttle :: "real \<Rightarrow> dcmotor \<Rightarrow> dcmotor" where
  "set_throttle v m = m\<lparr>throttle := v\<rparr>"

text \<open>The horizontal branch of \<^verbatim>\<open>control_motors\<close> (motor M1).\<close>

definition control_m1 :: "int \<Rightarrow> dcmotor option \<Rightarrow> dcmotor option" where
  "control_m1 offset_x m =
     (case m of
        None \<Rightarrow> None
      | Some m1 \<Rightarrow>
          if offset_x > DEAD_ZONE then Some (set_throttle (- MOTOR_SPEED) m1)
          else if offset_x < - DEAD_ZONE then Some (set_throttle MOTOR_SPEED m1)
          else Some (set_throttle 0 m1))"

text \<open>The vertical branch of \<^verbatim>\<open>control_motors\<close> (motor M2), with the opposite signs.\<close>

definition control_m2 :: "int \<Rightarrow> dcmotor option \<Rightarrow> dcmotor option" where
  "control_m2 offset_y m =
     (case m of
        None \<Rightarrow> None
      | Some m2 \<Rightarrow>
          if offset_y > DEAD_ZONE then Some (set_throttle MOTOR_SPEED m2)
          else if offset_y < - DEAD_ZONE then Some (set_throttle (- MOTOR_SPEED) m2)
          else Some (set_throttle 0 m2))"

definition control_motors :: "int \<Rightarrow> int \<Rightarrow> motor_module \<Rightarrow> motor_module" where
  "control_motors offset_x offset_y s =
     (if \<not> MOTOR_AVAILABLE s then s
      else s\<lparr>motor1 := control_m1 offset_x (motor1 s),
             motor2 := control_m2 offset_y (motor2 s)\<rparr>)"

definition stop_motors :: "motor_module \<Rightarrow> motor_module" where
  "stop_motors s =
     (if MOTOR_AVAILABLE s
      then s\<lparr>motor1 := map_option (set_throttle 0) (motor1 s),
             motor2 := map_option (set_throttle 0) (motor2 s),
             printed := printed s @ [''Motors stopped'']\<rparr>
      else s)"

text \<open>The throttle of an axis, \<open>None\<close> when the handle is \<^verbatim>\<open>None\<close>.\<close>

definition axis1 :: "motor_module \<Rightarrow> real option" where
  "axis1 s = map_option throttle (motor1 s)"

definition axis2 :: "motor_module \<Rightarrow> real option" where
  "axis2 s = map_option throttle (motor2 s)"

text \<open>
  The states the module can be in after its initialisation: available with both
  handles present, or unavailable with none.
\<close>

definition hardware_ready :: "motor_module \<Rightarrow> bool" where
  "hardware_ready s = (MOTOR_AVAILABLE s \<and> motor1 s \<noteq> None \<and> motor2 s \<noteq> None)"

lemma init_motors_ready: "hardware_ready (init_motors (Some (m1, m2)))"
  by (simp add: init_motors_def hardware_ready_def)

lemma init_motors_unavailable: "\<not> MOTOR_AVAILABLE (init_motors None)"
  by (simp add: init_motors_def)

lemma axis1_control_motors:
  "hardware_ready s \<Longrightarrow>
   axis1 (control_motors dx dy s) =
     Some (if dx > 50 then - 1 else if dx < - 50 then 1 else 0)"
  by (auto simp: hardware_ready_def control_motors_def control_m1_def axis1_def
      set_throttle_def DEAD_ZONE_def MOTOR_SPEED_def)

lemma axis2_control_motors:
  "hardware_ready s \<Longrightarrow>
   axis2 (control_motors dx dy s) =
     Some (if dy > 50 then 1 else if dy < - 50 then - 1 else 0)"
  by (auto simp: hardware_ready_def control_motors_def control_m2_def axis2_def
      set_throttle_def DEAD_ZONE_def MOTOR_SPEED_def)

lemma control_motors_ready: "hardware_ready s \<Longrightarrow> hardware_ready (control_motors dx dy s)"
  by (auto simp: hardware_ready_def control_motors_def control_m1_def control_m2_def)

lemma stop_motors_ready: "hardware_ready s \<Longrightarrow> hardware_ready (stop_motors s)"
  by (auto simp: hardware_ready_def stop_motors_def)

lemma axes_stop_motors:
  "hardware_ready s \<Longrightarrow> axis1 (stop_motors s) = Some 0 \<and> axis2 (stop_motors s) = Some 0"
  by (auto simp: hardware_ready_def stop_motors_def axis1_def axis2_def set_throttle_def)

text \<open>
  Claim C1. With the motor hardware initialised, \<^verbatim>\<open>control_motors\<close> sets each axis
  by a three-way comparison against the dead zone 50, each axis from its own offset
  only: the horizontal axis is full reverse (\<open>-1\<close>) for \<open>dx > 50\<close>, full forward
  (\<open>1\<close>) for \<open>dx < -50\<close> and stop (\<open>0\<close>) otherwise; the vertical axis has the opposite
  signs. In particular both axes stop when \<open>|dx| \<le> 50\<close> and \<open>|dy| \<le> 50\<close>, and the
  boundary is exclusive: \<open>dx = 50\<close> stops the horizontal axis.
\<close>

theorem control_motors_trichotomy:
  assumes "hardware_ready s"
  shows "(dx > 50 \<longrightarrow> axis1 (control_motors dx dy s) = Some (- MOTOR_SPEED))
       \<and> (dx < - 50 \<longrightarrow> axis1 (control_motors dx dy s) = Some MOTOR_SPEED)
       \<and> (\<bar>dx\<bar> \<le> 50 \<longrightarrow> axis1 (control_motors dx dy s) = Some 0)
       \<and> (dy > 50 \<longrightarrow> axis2 (control_motors dx dy s) = Some MOTOR_SPEED)
       \<and> (dy < - 50 \<longrightarrow> axis2 (control_motors dx dy s) = Some (- MOTOR_SPEED))
       \<and> (\<bar>dy\<bar> \<le> 50 \<longrightarrow> axis2 (control_motors dx dy s) = Some 0)
       \<and> (\<bar>dx\<bar> \<le> 50 \<and> \<bar>dy\<bar> \<le> 50 \<longrightarrow>
            axis1 (control_motors dx dy s) = Some 0 \<and> axis2 (control_motors dx dy s) = Some 0)
       \<and> axis1 (control_motors 50 dy s) = Some 0
       \<and> axis2 (control_motors dx 50 s) = Some 0
       \<and> axis1 (control_motors dx dy s) = axis1 (control_motors dx dy' s)
       \<and> axis2 (control_motors dx dy s) = axis2 (control_motors dx' dy s)"
  using assms
  by (simp add: axis1_control_motors axis2_control_motors MOTOR_SPEED_def)

theorem control_motors_trichotomy_witness:
  "hardware_ready (init_motors (Some (\<lparr>throttle = 0\<rparr>, \<lparr>throttle = 0\<rparr>)))
   \<and> axis1 (control_motors 51 (- 51) (init_motors (Some (\<lparr>throttle = 0\<rparr>, \<lparr>throttle = 0\<rparr>))))
       = Some (- 1)
   \<and> axis2 (control_motors 51 (- 51) (init_motors (Some (\<lparr>throttle = 0\<rparr>, \<lparr>throttle = 0\<rparr>))))
       = Some (- 1)
   \<and> axis1 (control_motors 50 (- 50) (init_motors (Some (\<lparr>throttle = 0\<rparr>, \<lparr>throttle = 0\<rparr>))))
       = Some 0
   \<and> axis2 (control_motors 50 (- 50) (init_motors (Some (\<lparr>throttle = 0\<rparr>, \<lparr>throttle = 0\<rparr>))))
       = Some 0"
proof -
  let ?s = "init_motors (Some (\<lparr>throttle = 0\<rparr>, \<lparr>throttle = 0\<rparr>))"
  have ready: "hardware_ready ?s"
    by (rule init_motors_ready)
  show ?thesis
    using ready
      control_motors_trichotomy [OF ready, where dx = 51 and dy = "- 51"]
      control_motors_trichotomy [OF ready, where dx = 50 and dy = "- 50"]
    by (simp add: MOTOR_SPEED_def)
qed

text \<open>
  Claim C8. When the hardware failed to initialise (\<^verbatim>\<open>MOTOR_AVAILABLE\<close> is false),
  \<^verbatim>\<open>control_motors\<close> with any offsets and \<^verbatim>\<open>stop_motors\<close> return the module state
  unchanged (no throttle is written, nothing is printed, and the model has no
  failing branch, as the source has no \<^verbatim>\<open>raise\<close>). \<^verbatim>\<open>stop_motors\<close> is idempotent on
  the axes: a second call leaves the motor handles exactly as the first did, and with
  the hardware initialised both axes are at stop (\<open>0\<close>) after one call and after two.
\<close>

theorem actuator_noop_and_stop_idempotent:
  "(\<not> MOTOR_AVAILABLE s \<longrightarrow> control_motors dx dy s = s \<and> stop_motors s = s)
   \<and> motor1 (stop_motors (stop_motors s)) = motor1 (stop_motors s)
   \<and> motor2 (stop_motors (stop_motors s)) = motor2 (stop_motors s)
   \<and> MOTOR_AVAILABLE (stop_motors s) = MOTOR_AVAILABLE s
   \<and> (hardware_ready s \<longrightarrow>
        axis1 (stop_motors s) = Some 0 \<and> axis2 (stop_motors s) = Some 0
        \<and> axis1 (stop_motors (stop_motors s)) = Some 0
        \<and> axis2 (stop_motors (stop_motors s)) = Some 0)"
proof -
  have noop: "\<not> MOTOR_AVAILABLE s \<longrightarrow> control_motors dx dy s = s \<and> stop_motors s = s"
    by (simp add: control_motors_def stop_motors_def)
  have idem1: "motor1 (stop_motors (stop_motors s)) = motor1 (stop_motors s)"
    by (cases "motor1 s") (simp_all add: stop_motors_def set_throttle_def)
  have idem2: "motor2 (stop_motors (stop_motors s)) = motor2 (stop_motors s)"
    by (cases "motor2 s") (simp_all add: stop_motors_def set_throttle_def)
  have avail: "MOTOR_AVAILABLE (stop_motors s) = MOTOR_AVAILABLE s"
    by (simp add: stop_motors_def)
  have stopped: "hardware_ready s \<longrightarrow>
        axis1 (stop_motors s) = Some 0 \<and> axis2 (stop_motors s) = Some 0
        \<and> axis1 (stop_motors (stop_motors s)) = Some 0
        \<and> axis2 (stop_motors (stop_motors s)) = Some 0"
    using axes_stop_motors [of s] axes_stop_motors [of "stop_motors s"] stop_motors_ready [of s]
    by blast
  from noop idem1 idem2 avail stopped show ?thesis by blast
qed

theorem actuator_noop_and_stop_idempotent_witness:
  "\<not> MOTOR_AVAILABLE (init_motors None)
   \<and> control_motors 200 (- 200) (init_motors None) = init_motors None
   \<and> stop_motors (init_motors None) = init_motors None
   \<and> hardware_ready (init_motors (Some (\<lparr>throttle = 1\<rparr>, \<lparr>throttle = - 1\<rparr>)))
   \<and> axis1 (stop_motors (stop_motors (init_motors (Some (\<lparr>throttle = 1\<rparr>, \<lparr>throttle = - 1\<rparr>)))))
       = Some 0
   \<and> axis2 (stop_motors (stop_motors (init_motors (Some (\<lparr>throttle = 1\<rparr>, \<lparr>throttle = - 1\<rparr>)))))
       = Some 0"
  using actuator_noop_and_stop_idempotent [of "init_motors None" 200 "- 200"]
    actuator_noop_and_stop_idempotent
      [of "init_motors (Some (\<lparr>throttle = 1\<rparr>, \<lparr>throttle = - 1\<rparr>))" 0 0]
    init_motors_unavailable
    init_motors_ready [of "\<lparr>throttle = 1\<rparr>" "\<lparr>throttle = - 1\<rparr>"]
  by blast

subsection \<open>vision\_tracker.py\<close>

text \<open>
  A face box is the tuple \<^verbatim>\<open>(x, y, w, h)\<close> of the detector. A frame is modelled by
  its shape \<^verbatim>\<open>(height, width)\<close> and the rectangles drawn on it so far (each with its
  two corners); the pixels play no part in the control flow.
\<close>

type_synonym box = "int \<times> int \<times> int \<times> int"

record frame =
  frame_height :: int
  frame_width :: int
  rectangles :: "((int \<times> int) \<times> (int \<times> int)) list"

text \<open>The key of the selection, \<^verbatim>\<open>lambda f: f[2] * f[3]\<close>.\<close>

fun area :: "box \<Rightarrow> int" where
  "area (x, y, w, h) = w * h"

text \<open>
  Python's \<^verbatim>\<open>max(iterable, key=...)\<close>: the first item is the candidate, and a later
  item replaces it only when its key is strictly greater. On an empty iterable
  \<^verbatim>\<open>max\<close> raises \<^verbatim>\<open>ValueError\<close>, here \<open>None\<close>.
\<close>

fun max_loop :: "('a \<Rightarrow> int) \<Rightarrow> 'a \<Rightarrow> 'a list \<Rightarrow> 'a" where
  "max_loop key best [] = best"
| "max_loop key best (item # items) =
     max_loop key (if key item > key best then item else best) items"

definition py_max :: "('a \<Rightarrow> int) \<Rightarrow> 'a list \<Rightarrow> 'a option" where
  "py_max key items = (case items of [] \<Rightarrow> None | item # rest \<Rightarrow> Some (max_loop key item rest))"

text \<open>
  The offset of a box from the centre of a frame, as the loop computes it, with
  Python's floor division \<^verbatim>\<open>//\<close>.
\<close>

fun face_offset :: "frame \<Rightarrow> box \<Rightarrow> int \<times> int" where
  "face_offset fr (x, y, w, h) =
     (let frame_center_x = frame_width fr div 2;
          frame_center_y = frame_height fr div 2;
          face_center_x = x + w div 2;
          face_center_y = y + h div 2
      in (face_center_x - frame_center_x, face_center_y - frame_center_y))"

fun draw_rectangle :: "box \<Rightarrow> frame \<Rightarrow> frame" where
  "draw_rectangle (x, y, w, h) fr = fr\<lparr>rectangles := rectangles fr @ [((x, y), (x + w, y + h))]\<rparr>"

text \<open>The calls one iteration makes into the motor module, in order.\<close>

datatype actuation = Control_motors int int | Stop_motors

text \<open>
  What one iteration of the \<^verbatim>\<open>while shared.running\<close> loop does: the calls into
  the motor module, the module state after them, the box selected and the offset
  computed (if any), and the frame handed to \<^verbatim>\<open>shared.set_frame\<close> (\<open>None\<close> when the
  iteration ends at \<^verbatim>\<open>continue\<close>).
\<close>

record iteration =
  actuations :: "actuation list"
  motors :: motor_module
  selected :: "box option"
  offset :: "(int \<times> int) option"
  published :: "frame option"

text \<open>
  One iteration. \<open>captured\<close> is the result of \<^verbatim>\<open>cap.read()\<close> (\<open>None\<close> when \<^verbatim>\<open>ret\<close>
  is false), \<open>faces\<close> what the detector returns for that frame, \<open>tracking\<close> the
  value of \<^verbatim>\<open>shared.tracking_enabled\<close> read in this iteration. Under the guard
  \<^verbatim>\<open>len(faces) > 0\<close> the call of \<^verbatim>\<open>max\<close> cannot raise, so the branch for its
  failure is never taken (lemma \<open>py_max_nonempty\<close> below).
\<close>

definition vision_iteration ::
  "frame option \<Rightarrow> box list \<Rightarrow> bool \<Rightarrow> motor_module \<Rightarrow> iteration" where
  "vision_iteration captured faces tracking m =
     (case captured of
        None \<Rightarrow>
          \<lparr>actuations = [], motors = m, selected = None, offset = None, published = None\<rparr>
      | Some fr \<Rightarrow>
          (if length faces > 0 then
             (case py_max area faces of
                None \<Rightarrow>
                  \<lparr>actuations = [], motors = m, selected = None, offset = None,
                   published = None\<rparr>
              | Some largest_face \<Rightarrow>
                  (let annotated = draw_rectangle largest_face fr;
                       (offset_x, offset_y) = face_offset fr largest_face
                   in if tracking
                      then \<lparr>actuations = [Control_motors offset_x offset_y],
                            motors = control_motors offset_x offset_y m,
                            selected = Some largest_face,
                            offset = Some (offset_x, offset_y),
                            published = Some annotated\<rparr>
                      else \<lparr>actuations = [Stop_motors],
                            motors = stop_motors m,
                            selected = Some largest_face,
                            offset = Some (offset_x, offset_y),
                            published = Some annotated\<rparr>))
           else \<lparr>actuations = [Stop_motors], motors = stop_motors m, selected = None,
                 offset = None, published = Some fr\<rparr>))"

lemma max_loop_first_maximum:
  "max_loop key best items = r \<Longrightarrow>
     (r = best \<and> (\<forall>f \<in> set items. key f \<le> key best))
   \<or> (\<exists>before after. items = before @ r # after \<and> key best < key r
         \<and> (\<forall>f \<in> set before. key f < key r) \<and> (\<forall>f \<in> set after. key f \<le> key r))"
proof (induction items arbitrary: best)
  case Nil
  then show ?case by simp
next
  case (Cons item items)
  let ?b = "if key item > key best then item else best"
  from Cons.prems have run: "max_loop key ?b items = r" by simp
  from Cons.IH [OF run] consider
      (kept) "r = ?b" "\<forall>f \<in> set items. key f \<le> key ?b"
    | (later) before after where "items = before @ r # after" "key ?b < key r"
        "\<forall>f \<in> set before. key f < key r" "\<forall>f \<in> set after. key f \<le> key r"
    by blast
  then show ?case
  proof cases
    case kept
    show ?thesis
    proof (cases "key item > key best")
      case True
      with kept have "item # items = [] @ r # items" "key best < key r"
        "\<forall>f \<in> set items. key f \<le> key r" by simp_all
      then show ?thesis by (metis empty_iff list.set(1))
    next
      case False
      with kept show ?thesis by auto
    qed
  next
    case later
    have "key best \<le> key ?b" "key item \<le> key ?b" by auto
    with later have "item # items = (item # before) @ r # after" "key best < key r"
      "\<forall>f \<in> set (item # before). key f < key r" by auto
    with later(4) show ?thesis by blast
  qed
qed

lemma py_max_first_maximum:
  assumes "py_max key items = Some r"
  shows "\<exists>before after. items = before @ r # after
           \<and> (\<forall>f \<in> set before. key f < key r) \<and> (\<forall>f \<in> set after. key f \<le> key r)"
proof -
  from assms obtain item rest where items: "items = item # rest"
    and run: "max_loop key item rest = r"
    by (auto simp: py_max_def split: list.splits)
  from max_loop_first_maximum [OF run] show ?thesis
  proof
    assume "r = item \<and> (\<forall>f \<in> set rest. key f \<le> key item)"
    with items have "items = [] @ r # rest" "\<forall>f \<in> set rest. key f \<le> key r" by simp_all
    then show ?thesis by (metis empty_iff list.set(1))
  next
    assume "\<exists>before after. rest = before @ r # after \<and> key item < key r
         \<and> (\<forall>f \<in> set before. key f < key r) \<and> (\<forall>f \<in> set after. key f \<le> key r)"
    then obtain before after where "rest = before @ r # after" "key item < key r"
      "\<forall>f \<in> set before. key f < key r" "\<forall>f \<in> set after. key f \<le> key r" by blast
    with items have "items = (item # before) @ r # after"
      "\<forall>f \<in> set (item # before). key f < key r" by auto
    with \<open>\<forall>f \<in> set after. key f \<le> key r\<close> show ?thesis by blast
  qed
qed

lemma py_max_nonempty: "items \<noteq> [] \<Longrightarrow> \<exists>r. py_max key items = Some r"
  by (cases items) (simp_all add: py_max_def)

text \<open>
  Claim C2. In an iteration in which a frame was captured and the detector returns no
  box, the only call into the motor module is \<^verbatim>\<open>stop_motors()\<close>, whatever the module
  state and the tracking flag are. In an iteration in which the detector returns at
  least one box and the tracking flag is off, the only call is again
  \<^verbatim>\<open>stop_motors()\<close> and \<^verbatim>\<open>control_motors\<close> is not called, while the largest box is
  still selected, drawn on the published frame, and its offset computed.
\<close>

theorem vision_iteration_stops:
  "actuations (vision_iteration (Some fr) [] tracking m) = [Stop_motors]
   \<and> motors (vision_iteration (Some fr) [] tracking m) = stop_motors m
   \<and> (faces \<noteq> [] \<longrightarrow>
        actuations (vision_iteration (Some fr) faces False m) = [Stop_motors]
        \<and> motors (vision_iteration (Some fr) faces False m) = stop_motors m
        \<and> (\<exists>b. py_max area faces = Some b
              \<and> selected (vision_iteration (Some fr) faces False m) = Some b
              \<and> offset (vision_iteration (Some fr) faces False m) = Some (face_offset fr b)
              \<and> published (vision_iteration (Some fr) faces False m)
                   = Some (draw_rectangle b fr)))"
proof -
  have none: "actuations (vision_iteration (Some fr) [] tracking m) = [Stop_motors]
      \<and> motors (vision_iteration (Some fr) [] tracking m) = stop_motors m"
    by (simp add: vision_iteration_def)
  have off: "actuations (vision_iteration (Some fr) faces False m) = [Stop_motors]
        \<and> motors (vision_iteration (Some fr) faces False m) = stop_motors m
        \<and> (\<exists>b. py_max area faces = Some b
              \<and> selected (vision_iteration (Some fr) faces False m) = Some b
              \<and> offset (vision_iteration (Some fr) faces False m) = Some (face_offset fr b)
              \<and> published (vision_iteration (Some fr) faces False m)
                   = Some (draw_rectangle b fr))"
    if "faces \<noteq> []"
  proof -
    from that obtain b where b: "py_max area faces = Some b"
      using py_max_nonempty by blast
    obtain ox oy where o: "face_offset fr b = (ox, oy)"
      by (cases "face_offset fr b")
    from that b o show ?thesis
      by (simp add: vision_iteration_def)
  qed
  from none off show ?thesis by blast
qed

theorem vision_iteration_stops_witness:
  "[(200, 100, 40, 60)] \<noteq> ([] :: box list)
   \<and> actuations (vision_iteration (Some \<lparr>frame_height = 480, frame_width = 640, rectangles = []\<rparr>)
        [] True (init_motors (Some (\<lparr>throttle = 1\<rparr>, \<lparr>throttle = 1\<rparr>)))) = [Stop_motors]
   \<and> actuations (vision_iteration (Some \<lparr>frame_height = 480, frame_width = 640, rectangles = []\<rparr>)
        [(200, 100, 40, 60)] False (init_motors (Some (\<lparr>throttle = 1\<rparr>, \<lparr>throttle = 1\<rparr>))))
       = [Stop_motors]
   \<and> offset (vision_iteration (Some \<lparr>frame_height = 480, frame_width = 640, rectangles = []\<rparr>)
        [(200, 100, 40, 60)] False (init_motors (Some (\<lparr>throttle = 1\<rparr>, \<lparr>throttle = 1\<rparr>))))
       = Some (- 100, - 110)"
proof -
  let ?fr = "\<lparr>frame_height = 480, frame_width = 640, rectangles = []\<rparr>"
  let ?m = "init_motors (Some (\<lparr>throttle = 1\<rparr>, \<lparr>throttle = 1\<rparr>))"
  let ?faces = "[(200, 100, 40, 60)] :: box list"
  have ne: "?faces \<noteq> []" by simp
  have sel: "py_max area ?faces = Some (200, 100, 40, 60)"
    by (simp add: py_max_def)
  from vision_iteration_stops [of ?fr True ?m ?faces] ne sel
  show ?thesis by simp
qed

text \<open>
  Claim C9. For a non-empty list of boxes the iteration selects a box of the largest
  area \<open>w * h\<close>, and among the boxes of that area the first in the list: every box
  before the selected one has a strictly smaller area, every box after it an area
  that is not larger. The offset is the centre of the selected box,
  \<open>(x + w div 2, y + h div 2)\<close>, minus the centre of the frame,
  \<open>(width div 2, height div 2)\<close>, with Python's floor division.
\<close>

theorem vision_iteration_selects_largest:
  assumes "faces \<noteq> []"
  shows "\<exists>before x y w h after.
           faces = before @ (x, y, w, h) # after
         \<and> (\<forall>f \<in> set before. area f < w * h)
         \<and> (\<forall>f \<in> set after. area f \<le> w * h)
         \<and> selected (vision_iteration (Some fr) faces tracking m) = Some (x, y, w, h)
         \<and> offset (vision_iteration (Some fr) faces tracking m)
             = Some (x + w div 2 - frame_width fr div 2, y + h div 2 - frame_height fr div 2)"
proof -
  from assms obtain b where b: "py_max area faces = Some b"
    using py_max_nonempty by blast
  obtain x y w h where xywh: "b = (x, y, w, h)"
    by (cases b) auto
  from py_max_first_maximum [OF b] obtain before after where
    split: "faces = before @ b # after"
    and lt: "\<forall>f \<in> set before. area f < area b"
    and le: "\<forall>f \<in> set after. area f \<le> area b"
    by blast
  have sel: "selected (vision_iteration (Some fr) faces tracking m) = Some b"
    using assms b xywh by (simp add: vision_iteration_def Let_def)
  have off: "offset (vision_iteration (Some fr) faces tracking m)
      = Some (x + w div 2 - frame_width fr div 2, y + h div 2 - frame_height fr div 2)"
    using assms b xywh by (simp add: vision_iteration_def Let_def)
  from split lt le sel off xywh show ?thesis
    by (auto simp del: split_paired_Ex)
qed

theorem vision_iteration_selects_largest_witness:
  "[(10, 10, 30, 30), (200, 100, 40, 60), (300, 50, 60, 40)] \<noteq> ([] :: box list)
   \<and> selected (vision_iteration (Some \<lparr>frame_height = 480, frame_width = 640, rectangles = []\<rparr>)
        [(10, 10, 30, 30), (200, 100, 40, 60), (300, 50, 60, 40)] True (init_motors None))
       = Some (200, 100, 40, 60)
   \<and> (\<exists>before x y w h after.
         [(10, 10, 30, 30), (200, 100, 40, 60), (300, 50, 60, 40)] = before @ (x, y, w, h) # after
         \<and> (\<forall>f \<in> set before. area f < w * h)
         \<and> (\<forall>f \<in> set after. area f \<le> w * h)
         \<and> selected (vision_iteration (Some \<lparr>frame_height = 480, frame_width = 640, rectangles = []\<rparr>)
              [(10, 10, 30, 30), (200, 100, 40, 60), (300, 50, 60, 40)] True (init_motors None))
             = Some (x, y, w, h)
         \<and> offset (vision_iteration (Some \<lparr>frame_height = 480, frame_width = 640, rectangles = []\<rparr>)
              [(10, 10, 30, 30), (200, 100, 40, 60), (300, 50, 60, 40)] True (init_motors None))
             = Some (x + w div 2 - 640 div 2, y + h div 2 - 480 div 2))"
proof -
  let ?fr = "\<lparr>frame_height = 480, frame_width = 640, rectangles = []\<rparr>"
  let ?faces = "[(10, 10, 30, 30), (200, 100, 40, 60), (300, 50, 60, 40)] :: box list"
  have ne: "?faces \<noteq> []" by simp
  have sel: "selected (vision_iteration (Some ?fr) ?faces True (init_motors None))
      = Some (200, 100, 40, 60)"
    by (simp add: vision_iteration_def py_max_def)
  from vision_iteration_selects_largest [OF ne, of ?fr True "init_motors None"] ne sel
  show ?thesis by simp
qed

subsection \<open>shared\_state.py\<close>

text \<open>
  Frames are mutable objects that several components hold references to, so they live
  in an explicit store: a reference is an index into the list of all objects allocated
  so far, \<^verbatim>\<open>obj.copy()\<close> allocates a new object with the same contents, and a write
  to an object replaces the contents at its index.
\<close>

type_synonym ref = nat

type_synonym 'f heap = "'f list"

definition alloc :: "'f \<Rightarrow> 'f heap \<Rightarrow> ref \<times> 'f heap" where
  "alloc v h = (length h, h @ [v])"

definition copy_obj :: "ref \<Rightarrow> 'f heap \<Rightarrow> ref \<times> 'f heap" where
  "copy_obj r h = alloc (h ! r) h"

definition mutate :: "ref \<Rightarrow> 'f \<Rightarrow> 'f heap \<Rightarrow> 'f heap" where
  "mutate r v h = h[r := v]"

text \<open>
  The fields of \<^verbatim>\<open>SharedState\<close>: \<^verbatim>\<open>_frame\<close>, \<^verbatim>\<open>_command_queue\<close>, \<^verbatim>\<open>_running\<close> and
  \<^verbatim>\<open>_tracking_enabled\<close> (the last two under the names of their properties). The
  lock only serialises the accesses of concurrent threads and has no sequential
  content.
\<close>

record 'c shared_state =
  priv_frame :: "ref option"
  priv_command_queue :: "'c list"
  running :: bool
  tracking_enabled :: bool

definition SharedState_init :: "'c shared_state" where
  "SharedState_init =
     \<lparr>priv_frame = None, priv_command_queue = [], running = True, tracking_enabled = True\<rparr>"

definition set_frame :: "ref option \<Rightarrow> 'c shared_state \<times> 'f heap \<Rightarrow> 'c shared_state \<times> 'f heap" where
  "set_frame frame sh =
     (case sh of (s, h) \<Rightarrow>
        (case frame of
           None \<Rightarrow> (s\<lparr>priv_frame := None\<rparr>, h)
         | Some r \<Rightarrow> (case copy_obj r h of (r', h') \<Rightarrow> (s\<lparr>priv_frame := Some r'\<rparr>, h'))))"

definition get_frame :: "'c shared_state \<Rightarrow> 'f heap \<Rightarrow> ref option \<times> 'f heap" where
  "get_frame s h =
     (case priv_frame s of
        None \<Rightarrow> (None, h)
      | Some r \<Rightarrow> (case copy_obj r h of (r', h') \<Rightarrow> (Some r', h')))"

definition put_command :: "'c \<Rightarrow> 'c shared_state \<Rightarrow> 'c shared_state" where
  "put_command command s = s\<lparr>priv_command_queue := priv_command_queue s @ [command]\<rparr>"

text \<open>
  \<^verbatim>\<open>get_command\<close> calls \<^verbatim>\<open>Queue.get(timeout=timeout)\<close> and turns every exception into
  the result \<^verbatim>\<open>None\<close>. The standard library's \<^verbatim>\<open>get\<close>, read for one consumer with no
  producer running during the call: with \<^verbatim>\<open>timeout=None\<close> it waits until the queue is
  non-empty, so on an empty queue it never returns (the outer \<open>None\<close> here); a negative
  timeout raises \<^verbatim>\<open>ValueError\<close> before the queue is looked at; otherwise an empty
  queue raises \<^verbatim>\<open>Empty\<close> when the timeout has passed; in all other cases the head of
  the queue is removed and returned.
\<close>

definition get_command ::
  "real option \<Rightarrow> 'c shared_state \<Rightarrow> ('c option \<times> 'c shared_state) option" where
  "get_command timeout s =
     (case timeout of
        None \<Rightarrow>
          (case priv_command_queue s of
             [] \<Rightarrow> None
           | c # cs \<Rightarrow> Some (Some c, s\<lparr>priv_command_queue := cs\<rparr>))
      | Some t \<Rightarrow>
          if t < 0 then Some (None, s)
          else (case priv_command_queue s of
                  [] \<Rightarrow> Some (None, s)
                | c # cs \<Rightarrow> Some (Some c, s\<lparr>priv_command_queue := cs\<rparr>)))"

definition has_command :: "'c shared_state \<Rightarrow> bool" where
  "has_command s = (priv_command_queue s \<noteq> [])"

text \<open>A timeout that \<^verbatim>\<open>Queue.get\<close> accepts: \<^verbatim>\<open>None\<close> or a non-negative number.\<close>

definition accepted_timeout :: "real option \<Rightarrow> bool" where
  "accepted_timeout timeout = (case timeout of None \<Rightarrow> True | Some t \<Rightarrow> 0 \<le> t)"

text \<open>
  A producer that calls \<^verbatim>\<open>put_command\<close> for each command of a list in turn, and a
  consumer that calls \<^verbatim>\<open>get_command\<close> once for each timeout of a list, collecting the
  results in the order of the calls (\<open>None\<close> when one of the calls never returns).
\<close>

fun put_commands :: "'c list \<Rightarrow> 'c shared_state \<Rightarrow> 'c shared_state" where
  "put_commands [] s = s"
| "put_commands (command # commands) s = put_commands commands (put_command command s)"

fun get_commands ::
  "real option list \<Rightarrow> 'c shared_state \<Rightarrow> ('c option list \<times> 'c shared_state) option" where
  "get_commands [] s = Some ([], s)"
| "get_commands (timeout # timeouts) s =
     (case get_command timeout s of
        None \<Rightarrow> None
      | Some (r, s') \<Rightarrow>
          (case get_commands timeouts s' of
             None \<Rightarrow> None
           | Some (rs, s'') \<Rightarrow> Some (r # rs, s'')))"

lemma get_command_head:
  "accepted_timeout timeout \<Longrightarrow> priv_command_queue s = c # cs \<Longrightarrow>
   get_command timeout s = Some (Some c, s\<lparr>priv_command_queue := cs\<rparr>)"
  by (auto simp: get_command_def accepted_timeout_def split: option.splits)

lemma queue_after_put [simp]:
  "priv_command_queue (put_command c s) = priv_command_queue s @ [c]"
  by (simp add: put_command_def)

lemma put_commands_state:
  "put_commands cs s = s\<lparr>priv_command_queue := priv_command_queue s @ cs\<rparr>"
  by (induction cs arbitrary: s) (simp_all add: put_command_def)

lemma queue_after_puts:
  "priv_command_queue (put_commands cs s) = priv_command_queue s @ cs"
  by (simp add: put_commands_state)

lemma get_commands_prefix:
  assumes "\<forall>t \<in> set ts. accepted_timeout t"
    and "length ts \<le> length (priv_command_queue s)"
  shows "get_commands ts s =
     Some (map Some (take (length ts) (priv_command_queue s)),
           s\<lparr>priv_command_queue := drop (length ts) (priv_command_queue s)\<rparr>)"
  using assms
proof (induction ts arbitrary: s)
  case Nil
  then show ?case by simp
next
  case (Cons t ts)
  from Cons.prems(2) obtain c q where q: "priv_command_queue s = c # q"
    by (cases "priv_command_queue s") auto
  let ?s' = "s\<lparr>priv_command_queue := q\<rparr>"
  from Cons.prems(1) have t: "accepted_timeout t" and ts: "\<forall>t \<in> set ts. accepted_timeout t"
    by simp_all
  have head: "get_command t s = Some (Some c, ?s')"
    by (rule get_command_head [OF t q])
  from Cons.prems(2) q have len: "length ts \<le> length (priv_command_queue ?s')" by simp
  from Cons.IH [OF ts len] head q show ?case by simp
qed

lemma puts_then_gets:
  assumes "\<forall>t \<in> set ts. accepted_timeout t"
    and "length ts \<le> length (priv_command_queue s) + length cs"
  shows "get_commands ts (put_commands cs s) =
     Some (map Some (take (length ts) (priv_command_queue s @ cs)),
           s\<lparr>priv_command_queue := drop (length ts) (priv_command_queue s @ cs)\<rparr>)"
proof -
  from assms(2) have "length ts \<le> length (priv_command_queue (put_commands cs s))"
    by (simp add: queue_after_puts)
  from get_commands_prefix [OF assms(1) this] show ?thesis
    by (simp add: put_commands_state)
qed

lemma three_puts_then_gets:
  assumes "priv_command_queue s = []"
    and "accepted_timeout t1" and "accepted_timeout t2" and "accepted_timeout t3"
  shows "\<exists>s1 s2 s3.
           get_command t1 (put_command C (put_command B (put_command A s))) = Some (Some A, s1)
         \<and> get_command t2 s1 = Some (Some B, s2)
         \<and> get_command t3 s2 = Some (Some C, s3)
         \<and> priv_command_queue s3 = []"
proof -
  let ?s0 = "put_command C (put_command B (put_command A s))"
  let ?s1 = "?s0\<lparr>priv_command_queue := [B, C]\<rparr>"
  let ?s2 = "?s1\<lparr>priv_command_queue := [C]\<rparr>"
  let ?s3 = "?s2\<lparr>priv_command_queue := []\<rparr>"
  have q0: "priv_command_queue ?s0 = A # [B, C]"
    using assms(1) by simp
  have g1: "get_command t1 ?s0 = Some (Some A, ?s1)"
    by (rule get_command_head [OF assms(2) q0])
  have g2: "get_command t2 ?s1 = Some (Some B, ?s2)"
    by (rule get_command_head [OF assms(3)]) simp
  have g3: "get_command t3 ?s2 = Some (Some C, ?s3)"
    by (rule get_command_head [OF assms(4)]) simp
  have "priv_command_queue ?s3 = []" by simp
  with g1 g2 g3 show ?thesis by blast
qed

text \<open>
  Claim C5. The command queue is first-in first-out. \<^verbatim>\<open>put_command\<close> appends at the
  tail of the queue, and \<^verbatim>\<open>get_command\<close> (with a timeout the queue accepts) removes
  and returns the head, in every state. So for every queue content and every list of
  commands put after it, any number of gets up to the number of queued commands
  returns exactly that many commands from the front of the old content followed by
  the new commands, in the order they were put, and leaves the rest queued in the same
  order; started on an empty queue and run until all are taken, the gets return the
  commands put, in order, and leave the queue empty. In particular, on an empty queue
  \<^verbatim>\<open>put_command\<close> of \<open>A\<close>, \<open>B\<close>, \<open>C\<close> followed by three calls of \<^verbatim>\<open>get_command\<close>
  returns \<open>A\<close>, then \<open>B\<close>, then \<open>C\<close>.
\<close>

theorem command_queue_fifo:
  "priv_command_queue (put_command c s) = priv_command_queue s @ [c]
   \<and> (accepted_timeout t \<and> priv_command_queue s = c # q \<longrightarrow>
        get_command t s = Some (Some c, s\<lparr>priv_command_queue := q\<rparr>))
   \<and> ((\<forall>t \<in> set ts. accepted_timeout t)
        \<and> length ts \<le> length (priv_command_queue s) + length cs \<longrightarrow>
        get_commands ts (put_commands cs s) =
          Some (map Some (take (length ts) (priv_command_queue s @ cs)),
                s\<lparr>priv_command_queue := drop (length ts) (priv_command_queue s @ cs)\<rparr>))
   \<and> ((\<forall>t \<in> set ts. accepted_timeout t) \<and> priv_command_queue s = []
        \<and> length ts = length cs \<longrightarrow>
        get_commands ts (put_commands cs s) = Some (map Some cs, s\<lparr>priv_command_queue := []\<rparr>))
   \<and> (priv_command_queue s = []
        \<and> accepted_timeout t1 \<and> accepted_timeout t2 \<and> accepted_timeout t3 \<longrightarrow>
        (\<exists>s1 s2 s3.
           get_command t1 (put_command C (put_command B (put_command A s))) = Some (Some A, s1)
         \<and> get_command t2 s1 = Some (Some B, s2)
         \<and> get_command t3 s2 = Some (Some C, s3)
         \<and> priv_command_queue s3 = []))"
proof -
  have tail: "priv_command_queue (put_command c s) = priv_command_queue s @ [c]"
    by simp
  have head: "get_command t s = Some (Some c, s\<lparr>priv_command_queue := q\<rparr>)"
    if "accepted_timeout t" "priv_command_queue s = c # q"
    using that by (rule get_command_head)
  have general: "get_commands ts (put_commands cs s) =
          Some (map Some (take (length ts) (priv_command_queue s @ cs)),
                s\<lparr>priv_command_queue := drop (length ts) (priv_command_queue s @ cs)\<rparr>)"
    if "\<forall>t \<in> set ts. accepted_timeout t"
      "length ts \<le> length (priv_command_queue s) + length cs"
    using that by (rule puts_then_gets)
  have drain: "get_commands ts (put_commands cs s)
      = Some (map Some cs, s\<lparr>priv_command_queue := []\<rparr>)"
    if "\<forall>t \<in> set ts. accepted_timeout t" "priv_command_queue s = []" "length ts = length cs"
    using puts_then_gets [of ts s cs] that by simp
  have three: "\<exists>s1 s2 s3.
           get_command t1 (put_command C (put_command B (put_command A s))) = Some (Some A, s1)
         \<and> get_command t2 s1 = Some (Some B, s2)
         \<and> get_command t3 s2 = Some (Some C, s3)
         \<and> priv_command_queue s3 = []"
    if "priv_command_queue s = []" "accepted_timeout t1" "accepted_timeout t2"
      "accepted_timeout t3"
    using that by (rule three_puts_then_gets)
  from tail head general drain three show ?thesis by blast
qed

theorem command_queue_fifo_witness:
  "priv_command_queue (SharedState_init :: nat shared_state) = []
   \<and> accepted_timeout None \<and> accepted_timeout (Some (1 / 10))
   \<and> get_commands [Some (1 / 10), None, Some (1 / 10), None]
        (put_commands [1, 2, 3, 4] (SharedState_init :: nat shared_state))
       = Some ([Some 1, Some 2, Some 3, Some 4], SharedState_init)
   \<and> get_commands [None, None]
        (put_commands [3, 4] (put_commands [1, 2] (SharedState_init :: nat shared_state)))
       = Some ([Some 1, Some 2], SharedState_init\<lparr>priv_command_queue := [3, 4]\<rparr>)
   \<and> (\<exists>s1 s2 s3.
         get_command (Some (1 / 10))
           (put_command 3 (put_command 2 (put_command (1 :: nat) SharedState_init)))
           = Some (Some 1, s1)
       \<and> get_command None s1 = Some (Some 2, s2)
       \<and> get_command (Some (1 / 10)) s2 = Some (Some 3, s3)
       \<and> priv_command_queue s3 = [])"
proof -
  let ?init = "SharedState_init :: nat shared_state"
  have e: "priv_command_queue ?init = []"
    by (simp add: SharedState_init_def)
  have n: "accepted_timeout None" and p: "accepted_timeout (Some (1 / 10))"
    by (simp_all add: accepted_timeout_def)
  have same: "?init\<lparr>priv_command_queue := []\<rparr> = ?init"
    by (simp add: SharedState_init_def)
  have q12: "priv_command_queue (put_commands [1, 2] ?init) = [1, 2]"
    by (simp add: SharedState_init_def)
  have s12: "put_commands [1, 2] ?init = ?init\<lparr>priv_command_queue := [1, 2]\<rparr>"
    by (simp add: put_commands_state e)
  from command_queue_fifo
      [where s = ?init and ts = "[Some (1 / 10), None, Some (1 / 10), None]"
        and cs = "[1, 2, 3, 4]"] e n p same
  have four: "get_commands [Some (1 / 10), None, Some (1 / 10), None]
        (put_commands [1, 2, 3, 4] ?init) = Some ([Some 1, Some 2, Some 3, Some 4], ?init)"
    by simp
  from command_queue_fifo
      [where s = "put_commands [1, 2] ?init" and ts = "[None, None]" and cs = "[3, 4]"] n q12 s12
  have two: "get_commands [None, None] (put_commands [3, 4] (put_commands [1, 2] ?init))
       = Some ([Some 1, Some 2], ?init\<lparr>priv_command_queue := [3, 4]\<rparr>)"
    by simp
  from command_queue_fifo
      [where s = ?init and ?t1.0 = "Some (1 / 10)" and ?t2.0 = None and ?t3.0 = "Some (1 / 10)"
        and A = 1 and B = 2 and C = 3] e n p
  have three: "\<exists>s1 s2 s3.
         get_command (Some (1 / 10)) (put_command 3 (put_command 2 (put_command 1 ?init)))
           = Some (Some 1, s1)
       \<and> get_command None s1 = Some (Some 2, s2)
       \<and> get_command (Some (1 / 10)) s2 = Some (Some 3, s3)
       \<and> priv_command_queue s3 = []"
    by blast
  from e n p four two three show ?thesis by blast
qed

lemma copy_obj_fresh:
  "r < length h \<Longrightarrow>
   copy_obj r h = (length h, h @ [h ! r]) \<and> (h @ [h ! r]) ! length h = h ! r"
  by (simp add: copy_obj_def alloc_def)

lemma get_frame_copy:
  assumes "priv_frame s = Some r" and "r < length h"
  shows "get_frame s h = (Some (length h), h @ [h ! r])"
  using assms by (simp add: get_frame_def copy_obj_def alloc_def)

lemma set_frame_copy:
  assumes "F < length h"
  shows "set_frame (Some F) (s, h) = (s\<lparr>priv_frame := Some (length h)\<rparr>, h @ [h ! F])"
  using assms by (simp add: set_frame_def copy_obj_def alloc_def)

text \<open>
  Claim C6. After \<^verbatim>\<open>set_frame(F)\<close> for a live frame object \<open>F\<close>, \<^verbatim>\<open>get_frame()\<close>
  returns a reference to an object whose contents equal those of \<open>F\<close> and which is
  neither \<open>F\<close> itself nor the object the cell keeps; whatever is then written into the
  returned object, the next \<^verbatim>\<open>get_frame()\<close> again returns an object with the contents
  of \<open>F\<close>. On a freshly constructed \<^verbatim>\<open>SharedState\<close>, before any \<^verbatim>\<open>set_frame\<close>,
  \<^verbatim>\<open>get_frame()\<close> returns \<^verbatim>\<open>None\<close> and allocates nothing.
\<close>

theorem frame_round_trip:
  assumes "F < length h"
  shows "(\<exists>s1 h1 r1 h2.
            set_frame (Some F) (s, h) = (s1, h1)
          \<and> get_frame s1 h1 = (Some r1, h2)
          \<and> r1 < length h2 \<and> h2 ! r1 = h ! F
          \<and> r1 \<noteq> F \<and> priv_frame s1 \<noteq> Some r1
          \<and> (\<forall>v. \<exists>r2 h3. get_frame s1 (mutate r1 v h2) = (Some r2, h3)
                 \<and> h3 ! r2 = h ! F \<and> r2 \<noteq> r1))
       \<and> get_frame (SharedState_init :: 'c shared_state) h = (None, h)"
proof -
  let ?s1 = "s\<lparr>priv_frame := Some (length h)\<rparr>"
  let ?h1 = "h @ [h ! F]"
  let ?r1 = "length ?h1"
  let ?h2 = "?h1 @ [?h1 ! length h]"
  have set: "set_frame (Some F) (s, h) = (?s1, ?h1)"
    by (rule set_frame_copy [OF assms])
  have cell: "priv_frame ?s1 = Some (length h)" by simp
  have get: "get_frame ?s1 ?h1 = (Some ?r1, ?h2)"
    by (rule get_frame_copy [OF cell]) simp
  have live: "?r1 < length ?h2" by simp
  have same: "?h2 ! ?r1 = h ! F"
    by (simp add: nth_append)
  have distinct: "?r1 \<noteq> F" "priv_frame ?s1 \<noteq> Some ?r1"
    using assms by simp_all
  have again: "\<exists>r2 h3. get_frame ?s1 (mutate ?r1 v ?h2) = (Some r2, h3)
      \<and> h3 ! r2 = h ! F \<and> r2 \<noteq> ?r1" for v
  proof -
    let ?hm = "mutate ?r1 v ?h2"
    have len: "length ?hm = length h + 2"
      by (simp add: mutate_def)
    have kept: "?hm ! length h = h ! F"
      by (simp add: mutate_def nth_append)
    have "get_frame ?s1 ?hm = (Some (length ?hm), ?hm @ [?hm ! length h])"
      by (rule get_frame_copy [OF cell]) (simp add: mutate_def)
    moreover have "(?hm @ [?hm ! length h]) ! length ?hm = h ! F"
      using kept by simp
    moreover have "length ?hm \<noteq> ?r1"
      by (simp add: mutate_def)
    ultimately show ?thesis by blast
  qed
  have init: "get_frame (SharedState_init :: 'c shared_state) h = (None, h)"
    by (simp add: get_frame_def SharedState_init_def)
  from set get live same distinct again init show ?thesis by blast
qed

theorem frame_round_trip_witness:
  "(0 :: nat) < length [''frame F'']
   \<and> (\<exists>s1 h1 r1 h2.
         set_frame (Some 0) (SharedState_init :: nat shared_state, [''frame F'']) = (s1, h1)
       \<and> get_frame s1 h1 = (Some r1, h2)
       \<and> r1 < length h2 \<and> h2 ! r1 = ''frame F''
       \<and> r1 \<noteq> 0 \<and> priv_frame s1 \<noteq> Some r1
       \<and> (\<forall>v. \<exists>r2 h3. get_frame s1 (mutate r1 v h2) = (Some r2, h3)
              \<and> h3 ! r2 = ''frame F'' \<and> r2 \<noteq> r1))
   \<and> get_frame (SharedState_init :: nat shared_state) [''frame F''] = (None, [''frame F''])"
proof -
  have live: "(0 :: nat) < length [''frame F'']" by simp
  from frame_round_trip [OF live, where s = "SharedState_init :: nat shared_state"
      and 'c = nat] live
  show ?thesis by simp
qed

subsection \<open>voice\_commands.py\<close>

text \<open>
  Strings. A character of \<open>string\<close> stands for the code point of the same number
  (0 to 255). \<^verbatim>\<open>str.lower()\<close> on these code points maps \<^verbatim>\<open>A\<close> to \<^verbatim>\<open>Z\<close> and the
  upper-case letters 192 to 222 (without the multiplication sign 215) to the code
  point 32 above, and leaves every other one as it is; \<^verbatim>\<open>str.strip()\<close> removes the
  code points for which \<^verbatim>\<open>str.isspace()\<close> holds (9 to 13, 28 to 32, 133 and 160) from
  both ends.
\<close>

definition py_lower_char :: "char \<Rightarrow> char" where
  "py_lower_char c =
     (let n = (of_char c :: nat) in
      if (65 \<le> n \<and> n \<le> 90) \<or> (192 \<le> n \<and> n \<le> 222 \<and> n \<noteq> 215)
      then char_of (n + 32) else c)"

definition py_lower :: "string \<Rightarrow> string" where
  "py_lower s = map py_lower_char s"

definition py_isspace :: "char \<Rightarrow> bool" where
  "py_isspace c =
     (let n = (of_char c :: nat) in
      (9 \<le> n \<and> n \<le> 13) \<or> (28 \<le> n \<and> n \<le> 32) \<or> n = 133 \<or> n = 160)"

definition lstrip :: "string \<Rightarrow> string" where
  "lstrip s = dropWhile py_isspace s"

definition rstrip :: "string \<Rightarrow> string" where
  "rstrip s = rev (dropWhile py_isspace (rev s))"

definition py_strip :: "string \<Rightarrow> string" where
  "py_strip s = rev (dropWhile py_isspace (rev (dropWhile py_isspace s)))"

text \<open>\<^verbatim>\<open>s.startswith(p)\<close>.\<close>

definition startswith :: "string \<Rightarrow> string \<Rightarrow> bool" where
  "startswith s p = (take (length p) s = p)"

text \<open>
  \<^verbatim>\<open>re.match\<close> with a pattern that is an alternation of literal phrases: the match is
  anchored at the start of the string, so it succeeds exactly when the string starts
  with one of the phrases.
\<close>

definition re_match :: "string list \<Rightarrow> string \<Rightarrow> bool" where
  "re_match alternatives s = list_ex (startswith s) alternatives"

text \<open>
  The dictionaries \<^verbatim>\<open>parse_command\<close> returns, one constructor for each pair of
  \<^verbatim>\<open>'type'\<close> and \<^verbatim>\<open>'action'\<close>; \<open>Music_play\<close> carries the value under \<^verbatim>\<open>'query'\<close>
  (\<open>None\<close> is Python's \<^verbatim>\<open>None\<close>).
\<close>

datatype command =
    Greeting_hello
  | Music_play "string option"
  | Music_pause
  | Music_stop
  | Volume_up
  | Volume_down
  | Tracking_on
  | Tracking_off

definition parse_command :: "string \<Rightarrow> command option" where
  "parse_command raw =
     (let s = py_strip (py_lower raw) in
      if s = [] then None
      else if s \<in> set [''hello'', ''hi'', ''hey'', ''hello debo''] then Some Greeting_hello
      else if startswith s ''play'' then
        (let query = py_strip (drop 4 s)
         in Some (Music_play (if query \<noteq> [] then Some query else None)))
      else if s \<in> set [''pause'', ''pause music'', ''pause it''] then Some Music_pause
      else if s \<in> set [''stop'', ''stop music'', ''stop it'', ''stop playing'']
        then Some Music_stop
      else if re_match [''volume up'', ''louder'', ''turn it up'', ''increase volume''] s
        then Some Volume_up
      else if re_match [''volume down'', ''quieter'', ''turn it down'', ''decrease volume''] s
        then Some Volume_down
      else if re_match [''tracking on'', ''enable tracking'', ''start tracking'', ''track me''] s
        then Some Tracking_on
      else if re_match [''tracking off'', ''disable tracking'', ''stop tracking'', ''don't track''] s
        then Some Tracking_off
      else None)"

lemma py_lower_char_idem: "py_lower_char (py_lower_char c) = py_lower_char c"
  by (simp add: py_lower_char_def Let_def)

lemma py_isspace_lower_char: "py_isspace (py_lower_char c) = py_isspace c"
  by (simp add: py_lower_char_def py_isspace_def Let_def)

lemma py_lower_idem: "py_lower (py_lower s) = py_lower s"
  by (simp add: py_lower_def py_lower_char_idem)

lemma py_lower_length: "length (py_lower s) = length s"
  by (simp add: py_lower_def)

lemma dropWhile_isspace_lower:
  "dropWhile py_isspace (py_lower s) = py_lower (dropWhile py_isspace s)"
  by (induction s) (simp_all add: py_lower_def py_isspace_lower_char)

lemma py_lower_strip: "py_lower (py_strip s) = py_strip (py_lower s)"
proof -
  have "rev (py_lower s) = py_lower (rev s)" for s
    by (simp add: py_lower_def rev_map)
  then show ?thesis
    by (simp add: py_strip_def dropWhile_isspace_lower)
qed

lemma py_strip_alt: "py_strip s = rstrip (lstrip s)"
  by (simp add: py_strip_def lstrip_def rstrip_def)

lemma rstrip_Cons:
  "rstrip (x # xs) = (if py_isspace x \<and> rstrip xs = [] then [] else x # rstrip xs)"
  by (auto simp: rstrip_def dropWhile_append)

lemma rstrip_Nil: "rstrip [] = []"
  by (simp add: rstrip_def)

lemma lstrip_rstrip: "lstrip (rstrip s) = rstrip (lstrip s)"
proof (induction s)
  case Nil
  then show ?case by (simp add: lstrip_def rstrip_Nil)
next
  case (Cons x xs)
  show ?case
  proof (cases "py_isspace x")
    case False
    then show ?thesis by (simp add: rstrip_Cons lstrip_def)
  next
    case True
    show ?thesis
    proof (cases "rstrip xs = []")
      case True
      with Cons have "rstrip (lstrip xs) = []" by (simp add: lstrip_def)
      with True \<open>py_isspace x\<close> show ?thesis by (simp add: rstrip_Cons lstrip_def)
    next
      case False
      with \<open>py_isspace x\<close> Cons show ?thesis by (simp add: rstrip_Cons lstrip_def)
    qed
  qed
qed

lemma rstrip_idem: "rstrip (rstrip s) = rstrip s"
  by (simp add: rstrip_def)

lemma lstrip_idem: "lstrip (lstrip s) = lstrip s"
  by (simp add: lstrip_def)

lemma py_strip_idem: "py_strip (py_strip s) = py_strip s"
  by (simp add: py_strip_alt lstrip_rstrip lstrip_idem rstrip_idem)

lemma py_strip_rstrip: "py_strip (rstrip s) = py_strip s"
  by (simp add: py_strip_alt lstrip_rstrip rstrip_idem)

lemma normalise_idem:
  "py_strip (py_lower (py_strip (py_lower raw))) = py_strip (py_lower raw)"
  by (simp add: py_lower_strip py_lower_idem py_strip_idem)

lemma parse_command_normalised:
  "parse_command (py_strip (py_lower raw)) = parse_command raw"
  using normalise_idem [of raw] by (simp add: parse_command_def)

lemma parse_command_startswith_play:
  assumes "startswith (py_strip (py_lower raw)) ''play''"
  shows "parse_command raw =
     Some (Music_play (if py_strip (drop 4 (py_strip (py_lower raw))) = [] then None
                       else Some (py_strip (drop 4 (py_strip (py_lower raw))))))"
proof -
  let ?s = "py_strip (py_lower raw)"
  from assms have t: "take 4 ?s = ''play''"
    by (simp add: startswith_def eval_nat_numeral)
  then have ne: "?s \<noteq> []" by auto
  have ng: "?s \<notin> set [''hello'', ''hi'', ''hey'', ''hello debo'']"
    using t by auto
  from ne ng assms show ?thesis
    by (simp add: parse_command_def Let_def)
qed

lemma strip_play_prefix: "py_strip (''play'' @ r) = ''play'' @ rstrip r"
  by (simp add: py_strip_alt lstrip_def rstrip_Cons py_isspace_def)

lemma parse_command_play_remainder:
  assumes "py_lower raw = ''play'' @ r"
  shows "parse_command raw =
     Some (Music_play (if py_strip r = [] then None else Some (py_strip r)))"
proof -
  have norm: "py_strip (py_lower raw) = ''play'' @ rstrip r"
    using assms by (simp only: strip_play_prefix)
  then have "startswith (py_strip (py_lower raw)) ''play''"
    by (simp add: startswith_def)
  from parse_command_startswith_play [OF this] norm show ?thesis
    by (simp add: py_strip_rstrip)
qed

text \<open>
  Claim C3. \<^verbatim>\<open>parse_command("PLAY some jazz")\<close> is the music/play command with the
  query \<^verbatim>\<open>"some jazz"\<close>, \<^verbatim>\<open>parse_command("play")\<close> the music/play command with no
  query, \<^verbatim>\<open>parse_command("")\<close> no command and \<^verbatim>\<open>parse_command("hello")\<close> the greeting.
  In general the result depends on the input only through its lower-cased and trimmed
  form; whenever that form starts with \<^verbatim>\<open>play\<close> the result is music/play with the
  trimmed rest after the first four characters as the query, and no query when that
  rest is empty; in particular an input that reads \<^verbatim>\<open>play\<close> followed by \<open>r\<close> once
  lower-cased gives the query \<open>r\<close> trimmed.
\<close>

theorem parse_command_play:
  "parse_command ''PLAY some jazz'' = Some (Music_play (Some ''some jazz''))
   \<and> parse_command ''play'' = Some (Music_play None)
   \<and> parse_command [] = None
   \<and> parse_command ''hello'' = Some Greeting_hello
   \<and> parse_command raw = parse_command (py_strip (py_lower raw))
   \<and> (startswith (py_strip (py_lower raw)) ''play'' \<longrightarrow>
        parse_command raw =
          Some (Music_play (if py_strip (drop 4 (py_strip (py_lower raw))) = [] then None
                            else Some (py_strip (drop 4 (py_strip (py_lower raw)))))))
   \<and> (py_lower raw = ''play'' @ r \<longrightarrow>
        parse_command raw =
          Some (Music_play (if py_strip r = [] then None else Some (py_strip r))))"
proof -
  have e1: "parse_command ''PLAY some jazz'' = Some (Music_play (Some ''some jazz''))"
    by code_simp
  have e2: "parse_command ''play'' = Some (Music_play None)"
    by code_simp
  have e3: "parse_command [] = None"
    by code_simp
  have e4: "parse_command ''hello'' = Some Greeting_hello"
    by code_simp
  have g1: "parse_command raw = parse_command (py_strip (py_lower raw))"
    by (simp only: parse_command_normalised)
  from e1 e2 e3 e4 g1 parse_command_startswith_play [of raw]
    parse_command_play_remainder [of raw r]
  show ?thesis by blast
qed

theorem parse_command_play_witness:
  "py_lower ''Play  Some Jazz '' = ''play'' @ ''  some jazz ''
   \<and> startswith (py_strip (py_lower ''Play  Some Jazz '')) ''play''
   \<and> parse_command ''Play  Some Jazz '' = Some (Music_play (Some ''some jazz''))"
proof -
  have l: "py_lower ''Play  Some Jazz '' = ''play'' @ ''  some jazz ''"
    by code_simp
  have p: "startswith (py_strip (py_lower ''Play  Some Jazz '')) ''play''"
    by code_simp
  have q: "py_strip ''  some jazz '' = ''some jazz''"
    by code_simp
  from parse_command_play [of "''Play  Some Jazz ''" "''  some jazz ''"] l
  have "parse_command ''Play  Some Jazz ''
      = Some (Music_play (if py_strip ''  some jazz '' = [] then None
                          else Some (py_strip ''  some jazz '')))"
    by blast
  then have "parse_command ''Play  Some Jazz '' = Some (Music_play (Some ''some jazz''))"
    unfolding q by simp
  with l p show ?thesis by blast
qed

subsection \<open>music\_player.py: song matching\<close>

text \<open>
  An entry of the song index, the dictionary with the keys \<^verbatim>\<open>'name'\<close>,
  \<^verbatim>\<open>'filename'\<close> and \<^verbatim>\<open>'path'\<close> that \<^verbatim>\<open>index_music_folder\<close> builds.
\<close>

record song =
  name :: string
  filename :: string
  path :: string

text \<open>The substring test \<^verbatim>\<open>q in n\<close> on strings.\<close>

fun py_in :: "string \<Rightarrow> string \<Rightarrow> bool" where
  "py_in q [] = (q = [])"
| "py_in q (c # cs) = (startswith (c # cs) q \<or> py_in q cs)"

text \<open>
  The score of one song, the body of the loop up to the comparison. The fuzzy score
  \<^verbatim>\<open>SequenceMatcher(None, a, b).ratio()\<close> comes from the standard library and is a
  parameter here; the library documents it as a number between 0 and 1. Scores are
  exact real numbers; on them the comparisons against \<open>0.3\<close>, \<open>0.5\<close> and \<open>1.5\<close>
  are those of the program, whose quotient of two string lengths plus \<open>0.5\<close> is
  rounded to the nearest double. The quotient is only formed when the query is a
  substring of the name, where a non-empty query makes the name non-empty.
\<close>

definition match_score :: "(string \<Rightarrow> string \<Rightarrow> real) \<Rightarrow> string \<Rightarrow> string \<Rightarrow> real" where
  "match_score ratio query_lower name_lower =
     (if py_in query_lower name_lower
      then real (length query_lower) / real (length name_lower) + 1 / 2
      else ratio query_lower name_lower)"

text \<open>
  The \<^verbatim>\<open>for song in music_files\<close> loop, with \<^verbatim>\<open>best_match\<close> and \<^verbatim>\<open>best_score\<close> as
  the accumulator: a song replaces the best one only on a strictly greater score.
\<close>

fun match_loop ::
  "(string \<Rightarrow> string \<Rightarrow> real) \<Rightarrow> string \<Rightarrow> song list \<Rightarrow> song option \<times> real \<Rightarrow> song option \<times> real" where
  "match_loop ratio query_lower [] best = best"
| "match_loop ratio query_lower (s # rest) (best_match, best_score) =
     (let score = match_score ratio query_lower (py_lower (name s))
      in if score > best_score
         then match_loop ratio query_lower rest (Some s, score)
         else match_loop ratio query_lower rest (best_match, best_score))"

text \<open>
  \<^verbatim>\<open>find_best_match\<close>. The query is \<open>None\<close> for Python's \<^verbatim>\<open>None\<close>; \<^verbatim>\<open>not query\<close>
  holds for \<^verbatim>\<open>None\<close> and for the empty string.
\<close>

definition find_best_match ::
  "(string \<Rightarrow> string \<Rightarrow> real) \<Rightarrow> string option \<Rightarrow> song list \<Rightarrow> song option" where
  "find_best_match ratio query music_files =
     (case music_files of
        [] \<Rightarrow> None
      | first # _ \<Rightarrow>
          (case query of
             None \<Rightarrow> Some first
           | Some q \<Rightarrow>
               if q = [] then Some first
               else (case match_loop ratio (py_lower q) music_files (None, 0) of
                       (best_match, best_score) \<Rightarrow>
                         if best_score > 3 / 10 then best_match else None)))"

lemma startswith_length: "startswith s p \<Longrightarrow> length p \<le> length s"
  unfolding startswith_def by (metis length_take min.cobounded1)

lemma py_in_length: "py_in q n \<Longrightarrow> length q \<le> length n"
  by (induction n) (auto dest: startswith_length)

lemma py_in_refl: "py_in q q"
  by (cases q) (simp_all add: startswith_def)

lemma py_in_same_length: "py_in q n \<Longrightarrow> length q = length n \<Longrightarrow> q = n"
proof (cases n)
  case Nil
  assume "py_in q n" then show ?thesis using Nil by simp
next
  case (Cons c cs)
  assume a: "py_in q n" and l: "length q = length n"
  from a Cons have "startswith (c # cs) q \<or> py_in q cs" by simp
  then show ?thesis
  proof
    assume "startswith (c # cs) q"
    with l Cons show ?thesis by (simp add: startswith_def)
  next
    assume "py_in q cs"
    from py_in_length [OF this] l Cons show ?thesis by simp
  qed
qed

lemma py_in_iff: "py_in q n \<longleftrightarrow> (\<exists>before after. n = before @ q @ after)"
proof (induction n)
  case Nil
  then show ?case by simp
next
  case (Cons c cs)
  show ?case
  proof
    assume "py_in q (c # cs)"
    then consider "startswith (c # cs) q" | "py_in q cs" by auto
    then show "\<exists>before after. c # cs = before @ q @ after"
    proof cases
      case 1
      then have "c # cs = [] @ q @ drop (length q) (c # cs)"
        by (metis append_Nil append_take_drop_id startswith_def)
      then show ?thesis by blast
    next
      case 2
      with Cons obtain before after where "cs = before @ q @ after" by blast
      then have "c # cs = (c # before) @ q @ after" by simp
      then show ?thesis by blast
    qed
  next
    assume "\<exists>before after. c # cs = before @ q @ after"
    then obtain before after where e: "c # cs = before @ q @ after" by blast
    show "py_in q (c # cs)"
    proof (cases before)
      case Nil
      with e have "startswith (c # cs) q" by (simp add: startswith_def)
      then show ?thesis by simp
    next
      case (Cons b bs)
      with e have "cs = bs @ q @ after" by simp
      with Cons.IH show ?thesis by auto
    qed
  qed
qed


lemma match_loop_invariant:
  assumes "match_loop ratio ql songs (bm, bs) = (bm', bs')"
  shows "bs \<le> bs'
       \<and> (\<forall>s \<in> set songs. match_score ratio ql (py_lower (name s)) \<le> bs')
       \<and> ((bm', bs') = (bm, bs)
          \<or> (\<exists>s \<in> set songs. bm' = Some s \<and> bs' = match_score ratio ql (py_lower (name s))
                \<and> bs < bs'))"
  using assms
proof (induction songs arbitrary: bm bs)
  case Nil
  then show ?case by simp
next
  case (Cons s rest)
  let ?score = "match_score ratio ql (py_lower (name s))"
  show ?case
  proof (cases "?score > bs")
    case True
    with Cons.prems have run: "match_loop ratio ql rest (Some s, ?score) = (bm', bs')"
      by simp
    from Cons.IH [OF run] True show ?thesis by auto
  next
    case False
    with Cons.prems have run: "match_loop ratio ql rest (bm, bs) = (bm', bs')"
      by simp
    from Cons.IH [OF run] False show ?thesis by auto
  qed
qed


lemma find_best_match_query:
  assumes "query \<noteq> []" and "music_files \<noteq> []"
    and "match_loop ratio (py_lower query) music_files (None, 0) = (bm, bs)"
  shows "find_best_match ratio (Some query) music_files = (if bs > 3 / 10 then bm else None)"
  using assms by (cases music_files) (simp_all add: find_best_match_def)

lemma find_best_match_accepts:
  assumes "query \<noteq> []" and "s \<in> set music_files"
    and "match_score ratio (py_lower query) (py_lower (name s)) > 3 / 10"
  shows "\<exists>r \<in> set music_files. find_best_match ratio (Some query) music_files = Some r
           \<and> (\<forall>t \<in> set music_files.
                 match_score ratio (py_lower query) (py_lower (name t))
                   \<le> match_score ratio (py_lower query) (py_lower (name r)))"
proof -
  obtain bm bs where run: "match_loop ratio (py_lower query) music_files (None, 0) = (bm, bs)"
    by (cases "match_loop ratio (py_lower query) music_files (None, 0)")
  from assms(2) have ne: "music_files \<noteq> []" by auto
  note inv = match_loop_invariant [OF run]
  from inv assms(2) have "match_score ratio (py_lower query) (py_lower (name s)) \<le> bs"
    by blast
  with assms(3) have big: "bs > 3 / 10" by simp
  then have "(bm, bs) \<noteq> (None, 0)" by simp
  with inv obtain r where r: "r \<in> set music_files" "bm = Some r"
    "bs = match_score ratio (py_lower query) (py_lower (name r))" by blast
  from find_best_match_query [OF assms(1) ne run] big r(2)
  have "find_best_match ratio (Some query) music_files = Some r" by simp
  with r inv show ?thesis by blast
qed

lemma exact_score:
  assumes "query \<noteq> []" and "py_lower (name s) = py_lower query"
  shows "match_score ratio (py_lower query) (py_lower (name s)) = 3 / 2"
proof -
  from assms(1) have "length (py_lower query) > 0"
    by (simp add: py_lower_length)
  then show ?thesis
    using assms(2) by (simp add: match_score_def py_in_refl)
qed

lemma score_at_least_exact:
  assumes "\<forall>a b. ratio a b \<le> 1" and "q \<noteq> []" and "match_score ratio q n \<ge> 3 / 2"
  shows "n = q"
proof (cases "py_in q n")
  case False
  with assms(1) have "match_score ratio q n \<le> 1" by (simp add: match_score_def)
  with assms(3) show ?thesis by simp
next
  case True
  from py_in_length [OF True] assms(2) have pos: "0 < length n" and le: "length q \<le> length n"
    by auto
  from True have "match_score ratio q n = real (length q) / real (length n) + 1 / 2"
    by (simp add: match_score_def)
  with assms(3) have "real (length q) / real (length n) \<ge> 1"
    by linarith
  with pos have "length n \<le> length q"
    by (simp add: le_divide_eq)
  with le have "length q = length n" by simp
  from py_in_same_length [OF True this] show ?thesis by simp
qed

text \<open>
  Claim C4. With a fuzzy ratio that is at most 1 and a non-empty query: a song whose
  name equals the query up to case scores exactly \<open>1.5\<close> (the substring score
  \<open>len(query)/len(name) + 0.5\<close>), a song whose name does not contain the query
  scores its fuzzy ratio, at most 1, and so strictly less; hence when the index
  holds a song whose name equals the query up to case, \<^verbatim>\<open>find_best_match\<close> returns a
  song of the index with such a name. And when no song of the index scores more than
  the threshold \<open>0.3\<close>, \<^verbatim>\<open>find_best_match\<close> returns \<^verbatim>\<open>None\<close>.
\<close>

theorem exact_name_outscores_fuzzy:
  assumes "\<forall>a b. ratio a b \<le> 1" and "query \<noteq> []"
  shows "(py_lower (name s) = py_lower query
            \<and> \<not> py_in (py_lower query) (py_lower (name t)) \<longrightarrow>
            match_score ratio (py_lower query) (py_lower (name s)) = 3 / 2
          \<and> match_score ratio (py_lower query) (py_lower (name t))
              = ratio (py_lower query) (py_lower (name t))
          \<and> match_score ratio (py_lower query) (py_lower (name t))
              < match_score ratio (py_lower query) (py_lower (name s)))
       \<and> (s \<in> set music_files \<and> py_lower (name s) = py_lower query \<longrightarrow>
            (\<exists>r \<in> set music_files. find_best_match ratio (Some query) music_files = Some r
               \<and> py_lower (name r) = py_lower query))
       \<and> ((\<forall>u \<in> set music_files.
              match_score ratio (py_lower query) (py_lower (name u)) \<le> 3 / 10) \<longrightarrow>
            find_best_match ratio (Some query) music_files = None)"
proof -
  let ?score = "\<lambda>x. match_score ratio (py_lower query) (py_lower (name x))"
  from assms(2) have ql: "py_lower query \<noteq> []"
    using py_lower_length [of query] by auto
  have part1: "?score s = 3 / 2 \<and> ?score t = ratio (py_lower query) (py_lower (name t))
      \<and> ?score t < ?score s"
    if "py_lower (name s) = py_lower query" "\<not> py_in (py_lower query) (py_lower (name t))"
  proof -
    from exact_score [OF assms(2) that(1)] have e: "?score s = 3 / 2" .
    from that(2) have f: "?score t = ratio (py_lower query) (py_lower (name t))"
      by (simp add: match_score_def)
    from assms(1) have "ratio (py_lower query) (py_lower (name t)) \<le> 1" by blast
    with e f show ?thesis by simp
  qed
  have part2: "\<exists>r \<in> set music_files. find_best_match ratio (Some query) music_files = Some r
      \<and> py_lower (name r) = py_lower query"
    if "s \<in> set music_files" "py_lower (name s) = py_lower query"
  proof -
    from exact_score [OF assms(2) that(2)] have e: "?score s = 3 / 2" .
    then have "?score s > 3 / 10" by simp
    from find_best_match_accepts [OF assms(2) that(1) this] obtain r where
      r: "r \<in> set music_files" "find_best_match ratio (Some query) music_files = Some r"
      "\<forall>u \<in> set music_files. ?score u \<le> ?score r" by blast
    from r(3) that(1) e have "?score r \<ge> 3 / 2" by fastforce
    from score_at_least_exact [OF assms(1) ql this] r show ?thesis by blast
  qed
  have part3: "find_best_match ratio (Some query) music_files = None"
    if low: "\<forall>u \<in> set music_files. ?score u \<le> 3 / 10"
  proof (cases "music_files = []")
    case True
    then show ?thesis by (simp add: find_best_match_def)
  next
    case False
    obtain bm bs where run: "match_loop ratio (py_lower query) music_files (None, 0) = (bm, bs)"
      by (cases "match_loop ratio (py_lower query) music_files (None, 0)")
    from match_loop_invariant [OF run] low have "bs \<le> 3 / 10" by auto
    with find_best_match_query [OF assms(2) False run] show ?thesis by simp
  qed
  from part1 part2 part3 show ?thesis by blast
qed

theorem exact_name_outscores_fuzzy_witness:
  "''hey jude'' \<noteq> [] \<and> ''zzz'' \<noteq> []
   \<and> py_lower ''Hey Jude'' = py_lower ''hey jude''
   \<and> \<not> py_in (py_lower ''hey jude'') (py_lower ''1234'')
   \<and> match_score (\<lambda>a b. 0) (py_lower ''hey jude'') (py_lower ''1234'')
       < match_score (\<lambda>a b. 0) (py_lower ''hey jude'') (py_lower ''Hey Jude'')
   \<and> (\<exists>r \<in> set [\<lparr>name = ''1234'', filename = ''1234.wav'', path = ''./music/1234.wav''\<rparr>,
                   \<lparr>name = ''Hey Jude'', filename = ''Hey Jude.mp3'',
                    path = ''./music/Hey Jude.mp3''\<rparr>].
         find_best_match (\<lambda>a b. 0) (Some ''hey jude'')
           [\<lparr>name = ''1234'', filename = ''1234.wav'', path = ''./music/1234.wav''\<rparr>,
            \<lparr>name = ''Hey Jude'', filename = ''Hey Jude.mp3'',
             path = ''./music/Hey Jude.mp3''\<rparr>] = Some r
         \<and> py_lower (name r) = py_lower ''hey jude'')
   \<and> find_best_match (\<lambda>a b. 0) (Some ''zzz'')
         [\<lparr>name = ''1234'', filename = ''1234.wav'', path = ''./music/1234.wav''\<rparr>,
          \<lparr>name = ''Hey Jude'', filename = ''Hey Jude.mp3'',
           path = ''./music/Hey Jude.mp3''\<rparr>] = None"
proof -
  let ?t = "\<lparr>name = ''1234'', filename = ''1234.wav'', path = ''./music/1234.wav''\<rparr>"
  let ?s = "\<lparr>name = ''Hey Jude'', filename = ''Hey Jude.mp3'',
    path = ''./music/Hey Jude.mp3''\<rparr>"
  let ?ratio = "\<lambda>(a :: string) (b :: string). 0 :: real"
  have range: "\<forall>a b. ?ratio a b \<le> 1" by simp
  have q1: "''hey jude'' \<noteq> []" and q2: "''zzz'' \<noteq> []" by simp_all
  have same: "py_lower ''Hey Jude'' = py_lower ''hey jude''" by code_simp
  have fuzzy: "\<not> py_in (py_lower ''hey jude'') (py_lower ''1234'')" by code_simp
  have z1: "\<not> py_in (py_lower ''zzz'') (py_lower ''1234'')" by code_simp
  have z2: "\<not> py_in (py_lower ''zzz'') (py_lower ''Hey Jude'')" by code_simp
  have low: "\<forall>u \<in> set [?t, ?s]. match_score ?ratio (py_lower ''zzz'') (py_lower (name u)) \<le> 3 / 10"
    using z1 z2 by (simp add: match_score_def)
  have m: "?s \<in> set [?t, ?s]" by simp
  note thm1 = exact_name_outscores_fuzzy [OF range q1, of ?s ?t "[?t, ?s]"]
  note thm2 = exact_name_outscores_fuzzy [OF range q2, of ?s ?t "[?t, ?s]"]
  from thm1 same fuzzy
  have a: "match_score ?ratio (py_lower ''hey jude'') (py_lower ''1234'')
       < match_score ?ratio (py_lower ''hey jude'') (py_lower ''Hey Jude'')"
    by simp
  from thm1 same m
  have b: "\<exists>r \<in> set [?t, ?s]. find_best_match ?ratio (Some ''hey jude'') [?t, ?s] = Some r
         \<and> py_lower (name r) = py_lower ''hey jude''"
    by simp
  from thm2 low have c: "find_best_match ?ratio (Some ''zzz'') [?t, ?s] = None"
    by blast
  from q1 q2 same fuzzy a b c show ?thesis by blast
qed



subsection \<open>music\_player.py: the volume operations\<close>

text \<open>
  The VLC media player object is modelled by the one setting these operations write,
  its audio volume. The fields of \<^verbatim>\<open>MusicPlayerThread\<close> are those its constructor
  sets, without the thread's queue and the VLC instance handle; the lines the
  operations print are left out.
\<close>

record vlc_player =
  audio_volume :: int

record music_player_thread =
  player :: "vlc_player option"
  current_volume :: int
  music_files :: "song list"
  current_song :: "song option"

definition MusicPlayerThread_init :: music_player_thread where
  "MusicPlayerThread_init =
     \<lparr>player = None, current_volume = 70, music_files = [], current_song = None\<rparr>"

text \<open>
  \<^verbatim>\<open>_init_vlc\<close>: \<open>vlc_ok\<close> says that the VLC library is available and the player
  could be created; then the player is created with the current volume and the result
  is \<^verbatim>\<open>True\<close>, otherwise nothing changes and the result is \<^verbatim>\<open>False\<close>.
\<close>

definition init_vlc :: "bool \<Rightarrow> music_player_thread \<Rightarrow> bool \<times> music_player_thread" where
  "init_vlc vlc_ok s =
     (if vlc_ok then (True, s\<lparr>player := Some \<lparr>audio_volume = current_volume s\<rparr>\<rparr>)
      else (False, s))"

definition volume_up :: "int \<Rightarrow> music_player_thread \<Rightarrow> music_player_thread" where
  "volume_up step s =
     (case player s of
        None \<Rightarrow> s
      | Some p \<Rightarrow>
          (let v = min 100 (current_volume s + step)
           in s\<lparr>current_volume := v, player := Some (p\<lparr>audio_volume := v\<rparr>)\<rparr>))"

definition volume_down :: "int \<Rightarrow> music_player_thread \<Rightarrow> music_player_thread" where
  "volume_down step s =
     (case player s of
        None \<Rightarrow> s
      | Some p \<Rightarrow>
          (let v = max 0 (current_volume s - step)
           in s\<lparr>current_volume := v, player := Some (p\<lparr>audio_volume := v\<rparr>)\<rparr>))"

text \<open>
  The two volume actions of \<^verbatim>\<open>_process_command\<close>, which calls \<^verbatim>\<open>volume_up()\<close> and
  \<^verbatim>\<open>volume_down()\<close> with the default step 10, and a sequence of them.
\<close>

datatype volume_action = Action_volume_up | Action_volume_down

fun process_volume_action :: "volume_action \<Rightarrow> music_player_thread \<Rightarrow> music_player_thread" where
  "process_volume_action Action_volume_up s = volume_up 10 s"
| "process_volume_action Action_volume_down s = volume_down 10 s"

fun process_volume_actions ::
  "volume_action list \<Rightarrow> music_player_thread \<Rightarrow> music_player_thread" where
  "process_volume_actions [] s = s"
| "process_volume_actions (a # as) s = process_volume_actions as (process_volume_action a s)"

definition volume_in_range :: "music_player_thread \<Rightarrow> bool" where
  "volume_in_range s = (0 \<le> current_volume s \<and> current_volume s \<le> 100)"

lemma volume_up_in_range: "volume_in_range s \<Longrightarrow> volume_in_range (volume_up 10 s)"
  by (cases "player s") (simp_all add: volume_up_def volume_in_range_def Let_def)

lemma volume_down_in_range: "volume_in_range s \<Longrightarrow> volume_in_range (volume_down 10 s)"
  by (cases "player s") (simp_all add: volume_down_def volume_in_range_def Let_def)

lemma process_volume_actions_in_range:
  "volume_in_range s \<Longrightarrow> volume_in_range (process_volume_actions as s)"
proof (induction as arbitrary: s)
  case Nil
  then show ?case by simp
next
  case (Cons a as)
  from Cons.prems have "volume_in_range (process_volume_action a s)"
    by (cases a) (simp_all add: volume_up_in_range volume_down_in_range)
  then show ?case by (simp add: Cons.IH)
qed

lemma init_vlc_in_range: "volume_in_range (snd (init_vlc vlc_ok MusicPlayerThread_init))"
  by (simp add: init_vlc_def MusicPlayerThread_init_def volume_in_range_def)

text \<open>
  Claim C7. The volume starts at 70. After \<^verbatim>\<open>_init_vlc\<close> (whether or not it
  succeeds) and any finite sequence of \<^verbatim>\<open>volume_up\<close> and \<^verbatim>\<open>volume_down\<close> with step
  10, the current volume is between 0 and 100. On a thread whose player exists,
  \<^verbatim>\<open>volume_up\<close> sets the current volume and the player's audio volume to
  \<open>min 100 (v + 10)\<close> and \<^verbatim>\<open>volume_down\<close> to \<open>max 0 (v - 10)\<close>; without a player
  both leave the thread as it is.
\<close>

theorem volume_stays_in_range:
  "current_volume MusicPlayerThread_init = 70
   \<and> 0 \<le> current_volume (process_volume_actions as (snd (init_vlc vlc_ok MusicPlayerThread_init)))
   \<and> current_volume (process_volume_actions as (snd (init_vlc vlc_ok MusicPlayerThread_init)))
       \<le> 100
   \<and> (player s = Some p \<longrightarrow>
         current_volume (volume_up 10 s) = min 100 (current_volume s + 10)
       \<and> player (volume_up 10 s) = Some (p\<lparr>audio_volume := min 100 (current_volume s + 10)\<rparr>)
       \<and> current_volume (volume_down 10 s) = max 0 (current_volume s - 10)
       \<and> player (volume_down 10 s) = Some (p\<lparr>audio_volume := max 0 (current_volume s - 10)\<rparr>))
   \<and> (player s = None \<longrightarrow> volume_up 10 s = s \<and> volume_down 10 s = s)"
proof -
  have start: "current_volume MusicPlayerThread_init = 70"
    by (simp add: MusicPlayerThread_init_def)
  have "volume_in_range
      (process_volume_actions as (snd (init_vlc vlc_ok MusicPlayerThread_init)))"
    by (rule process_volume_actions_in_range [OF init_vlc_in_range])
  then have range:
    "0 \<le> current_volume (process_volume_actions as (snd (init_vlc vlc_ok MusicPlayerThread_init)))"
    "current_volume (process_volume_actions as (snd (init_vlc vlc_ok MusicPlayerThread_init)))
       \<le> 100"
    by (simp_all add: volume_in_range_def)
  have present: "current_volume (volume_up 10 s) = min 100 (current_volume s + 10)
       \<and> player (volume_up 10 s) = Some (p\<lparr>audio_volume := min 100 (current_volume s + 10)\<rparr>)
       \<and> current_volume (volume_down 10 s) = max 0 (current_volume s - 10)
       \<and> player (volume_down 10 s) = Some (p\<lparr>audio_volume := max 0 (current_volume s - 10)\<rparr>)"
    if "player s = Some p"
    using that by (simp add: volume_up_def volume_down_def Let_def)
  have absent: "volume_up 10 s = s \<and> volume_down 10 s = s" if "player s = None"
    using that by (simp add: volume_up_def volume_down_def)
  from start range present absent show ?thesis by blast
qed

theorem volume_stays_in_range_witness:
  "player (snd (init_vlc True MusicPlayerThread_init)) = Some \<lparr>audio_volume = 70\<rparr>
   \<and> current_volume (volume_up 10 (snd (init_vlc True MusicPlayerThread_init))) = 80
   \<and> current_volume (process_volume_actions
        [Action_volume_up, Action_volume_up, Action_volume_up, Action_volume_up]
        (snd (init_vlc True MusicPlayerThread_init))) = 100
   \<and> player MusicPlayerThread_init = None
   \<and> volume_up 10 MusicPlayerThread_init = MusicPlayerThread_init"
proof -
  let ?s = "snd (init_vlc True MusicPlayerThread_init)"
  have p: "player ?s = Some \<lparr>audio_volume = 70\<rparr>"
    by (simp add: init_vlc_def MusicPlayerThread_init_def)
  have v: "current_volume ?s = 70"
    by (simp add: init_vlc_def MusicPlayerThread_init_def)
  have n: "player MusicPlayerThread_init = None"
    by (simp add: MusicPlayerThread_init_def)
  from volume_stays_in_range [of "[]" True ?s "\<lparr>audio_volume = 70\<rparr>"] p v
  have up: "current_volume (volume_up 10 ?s) = 80" by simp
  from volume_stays_in_range [of "[]" True MusicPlayerThread_init "\<lparr>audio_volume = 70\<rparr>"] n
  have noop: "volume_up 10 MusicPlayerThread_init = MusicPlayerThread_init" by blast
  have four: "current_volume (process_volume_actions
        [Action_volume_up, Action_volume_up, Action_volume_up, Action_volume_up] ?s) = 100"
    by (simp add: init_vlc_def MusicPlayerThread_init_def volume_up_def Let_def)
  from p up four n noop show ?thesis by blast
qed

end
